theory Spec2Isabelle
  imports Main "HOL-Library.Word" "HOL-Library.Sublist"
begin

text \<open>
  The render pipeline instance of WaterDropEngine
  (\<^verbatim>\<open>src/WaterDropEngine/WdeRender/WdeRenderPipelineInstance.cpp\<close>): the declaration of
  attachments and of the pass structure, the begin and end operations of passes and
  subpasses, and the tick that draws one frame. Each C++ member function is a function on
  the state it reads and writes; a throw and an access outside of a vector are results.
\<close>

section \<open>Errors and results\<close>

text \<open>
  Every error of \<^verbatim>\<open>WdeRenderPipelineInstance.cpp\<close> is a
  \<^verbatim>\<open>WdeException(LogChannel::RENDER, message)\<close>. One constructor stands for one message
  text; its arguments are the numbers the source splices into the message with
  \<^verbatim>\<open>std::to_string\<close>, in the order they appear there. The checks of
  \<^verbatim>\<open>beginRenderPass\<close> (line 118) and \<^verbatim>\<open>beginRenderSubPass\<close> (line 141) build the very
  same text, so they share \<open>NotCreated\<close>.
\<close>

datatype WdeException =
    PassesBeforeAttachments
      \<comment> \<open>Tried to create render passes before creating attachments in the render pipeline.\<close>
  | MissingRenderPass nat
      \<comment> \<open>Missing render pass with ID = (iterator).\<close>
  | MissingRenderSubpass nat nat
      \<comment> \<open>Missing render subpass with ID = (iterator2) in render pass with ID = (iterator).\<close>
  | BeginPassWhilePassBegan nat int
      \<comment> \<open>Trying to begin pass (index) while pass (current pass) has already began.\<close>
  | NotCreated nat
      \<comment> \<open>Trying to begin pass (index) which wasn't created.\<close>
  | EndPassWhileSubpassBegan int int
      \<comment> \<open>Trying to end render pass (current pass) while subpass (current subpass) has already began.\<close>
  | BeginSubpassOutsidePass nat
      \<comment> \<open>Trying to begin subpass (index) outside of a render pass.\<close>
  | BeginSubpassWhileSubpassBegan nat int int
      \<comment> \<open>Trying to begin subpass (index) while subpass (current subpass) has already began
          in render pass (current pass)\<close>
  | EndSubpassOutsidePass int
      \<comment> \<open>Trying to end subpass (current subpass) outside of a render pass.\<close>
  | FailedToPresent
      \<comment> \<open>Failed to present swap chain image.\<close>
  | CommandBufferNotRecording
      \<comment> \<open>\<^verbatim>\<open>end()\<close> on a command buffer that is not recording, see \<open>tick\<close>\<close>

text \<open>
  Besides throwing, the C++ can leave defined behaviour: \<^verbatim>\<open>std::vector::operator[]\<close>
  beyond the vector's size, and \<^verbatim>\<open>%\<close> by zero. Both are results of their own, so that no
  theorem can rest on what HOL's \<open>xs ! i\<close> or \<open>mod 0\<close> happen to return.
\<close>

datatype fault = Throw WdeException | VectorOutOfRange | DivisionByZero

type_synonym 'a result = "fault + 'a"


section \<open>Attachments, structures and runtime passes\<close>

text \<open>
  Modelled from the spec: the headers that declare \<^verbatim>\<open>RenderAttachment\<close>,
  \<^verbatim>\<open>RenderPassStructure\<close> and \<^verbatim>\<open>RenderSubpassStructure\<close> are not among the sources.
  The fields \<^verbatim>\<open>_passID\<close>, \<^verbatim>\<open>_subPasses\<close> and \<^verbatim>\<open>_subpassID\<close> are the ones
  \<^verbatim>\<open>setStructure\<close> reads (the leading underscore is dropped); the others follow the
  spec's data model and the aggregate initialisers of \<^verbatim>\<open>PipelineExample02.hpp\<close>. Ids are
  compared with \<^verbatim>\<open>uint32_t\<close> counters that count the entries of a vector from 0; they
  are natural numbers here.
\<close>

datatype AttachmentType = COLOR | DEPTH | SWAPCHAIN

record RenderAttachment =
  bindingIndex :: nat
  description :: string
  attachmentType :: AttachmentType

record RenderSubpassStructure =
  subpassID :: nat
  readAttachments :: "nat list"
  writeAttachments :: "nat list"

record RenderPassStructure =
  passID :: nat
  subPasses :: "RenderSubpassStructure list"

text \<open>
  Modelled from the spec: \<^verbatim>\<open>RenderPass.cpp\<close> is not among the sources. A runtime render
  pass is instantiated from the shared attachment set and the subpasses of one structure
  entry; \<^verbatim>\<open>getSubPassesCount\<close> is the number of those subpasses. Its four operations
  issue pass and subpass boundaries and raise nothing; the pass keeps the boundaries it
  was asked to issue, in order, which is all the pipeline instance can observe of it.
\<close>

datatype PassCall = Start | End | StartSubPass nat | EndSubPass int

record RenderPass =
  rp_attachments :: "RenderAttachment list"
  rp_subPasses :: "RenderSubpassStructure list"
  rp_calls :: "PassCall list"

definition new_RenderPass :: "RenderAttachment list \<Rightarrow> RenderSubpassStructure list \<Rightarrow> RenderPass" where
  "new_RenderPass atts subs = \<lparr>rp_attachments = atts, rp_subPasses = subs, rp_calls = []\<rparr>"

definition getSubPassesCount :: "RenderPass \<Rightarrow> nat" where
  "getSubPassesCount p = length (rp_subPasses p)"

definition start :: "RenderPass \<Rightarrow> RenderPass" where
  "start p = p\<lparr>rp_calls := rp_calls p @ [Start]\<rparr>"

definition end_pass :: "RenderPass \<Rightarrow> RenderPass" where
  "end_pass p = p\<lparr>rp_calls := rp_calls p @ [End]\<rparr>"

definition startSubPass :: "nat \<Rightarrow> RenderPass \<Rightarrow> RenderPass" where
  "startSubPass index p = p\<lparr>rp_calls := rp_calls p @ [StartSubPass index]\<rparr>"

definition endSubPass :: "int \<Rightarrow> RenderPass \<Rightarrow> RenderPass" where
  "endSubPass index p = p\<lparr>rp_calls := rp_calls p @ [EndSubPass index]\<rparr>"


section \<open>The render pipeline instance\<close>

text \<open>
  The members of \<^verbatim>\<open>WdeRenderPipelineInstance\<close> that the source file reads and writes
  (\<^verbatim>\<open>_attachments\<close>, \<^verbatim>\<open>_structure\<close>, \<^verbatim>\<open>_passes\<close>, \<^verbatim>\<open>_currentRenderPassID\<close>,
  \<^verbatim>\<open>_currentRenderSubPassID\<close>), with \<open>m_\<close> for the leading underscore. The two current
  ids are integers whose value \<open>-1\<close> means "none", as the comparisons with \<^verbatim>\<open>-1\<close> in the
  source have it.
\<close>

record WdeRenderPipelineInstance =
  m_attachments :: "RenderAttachment list"
  m_structure :: "RenderPassStructure list"
  m_passes :: "RenderPass list"
  m_currentRenderPassID :: int
  m_currentRenderSubPassID :: int

text \<open>
  Modelled from the spec: the class declaration (\<^verbatim>\<open>WdeRenderPipelineInstance.hpp\<close>) is
  not among the sources. A new instance has declared nothing and is outside of every pass;
  \<^verbatim>\<open>setAttachments\<close> stores the attachment set.
\<close>

definition new_instance :: WdeRenderPipelineInstance where
  "new_instance = \<lparr>m_attachments = [], m_structure = [], m_passes = [],
     m_currentRenderPassID = - 1, m_currentRenderSubPassID = - 1\<rparr>"

definition setAttachments :: "RenderAttachment list \<Rightarrow> WdeRenderPipelineInstance \<Rightarrow> WdeRenderPipelineInstance" where
  "setAttachments atts s = s\<lparr>m_attachments := atts\<rparr>"

text \<open>
  \<^verbatim>\<open>_passes[_currentRenderPassID]->method()\<close>: the signed id is converted to
  \<^verbatim>\<open>std::size_t\<close>, so a negative id becomes an index beyond the size of any vector. An
  index outside the vector has no defined result. Otherwise the pass at that position is
  replaced by the pass after the call (the vector holds the passes by pointer and the call
  mutates the pass in place).
\<close>

definition on_pass :: "int \<Rightarrow> (RenderPass \<Rightarrow> RenderPass) \<Rightarrow> WdeRenderPipelineInstance \<Rightarrow> WdeRenderPipelineInstance result" where
  "on_pass i f s =
     (if 0 \<le> i \<and> nat i < length (m_passes s)
      then Inr (s\<lparr>m_passes := (m_passes s)[nat i := f (m_passes s ! nat i)]\<rparr>)
      else Inl VectorOutOfRange)"

definition beginRenderPass :: "nat \<Rightarrow> WdeRenderPipelineInstance \<Rightarrow> WdeRenderPipelineInstance result" where
  "beginRenderPass index s =
     (if m_currentRenderPassID s \<noteq> - 1
      then Inl (Throw (BeginPassWhilePassBegan index (m_currentRenderPassID s)))
      else if index \<ge> length (m_passes s)
      then Inl (Throw (NotCreated index))
      else on_pass (int index) start (s\<lparr>m_currentRenderPassID := int index\<rparr>))"

definition endRenderPass :: "WdeRenderPipelineInstance \<Rightarrow> WdeRenderPipelineInstance result" where
  "endRenderPass s =
     (if m_currentRenderSubPassID s \<noteq> - 1
      then Inl (Throw (EndPassWhileSubpassBegan (m_currentRenderPassID s) (m_currentRenderSubPassID s)))
      else case on_pass (m_currentRenderPassID s) end_pass s of
             Inl e \<Rightarrow> Inl e
           | Inr s' \<Rightarrow> Inr (s'\<lparr>m_currentRenderPassID := - 1\<rparr>))"

definition beginRenderSubPass :: "nat \<Rightarrow> WdeRenderPipelineInstance \<Rightarrow> WdeRenderPipelineInstance result" where
  "beginRenderSubPass index s =
     (if m_currentRenderPassID s = - 1
      then Inl (Throw (BeginSubpassOutsidePass index))
      else if m_currentRenderSubPassID s \<noteq> - 1
      then Inl (Throw (BeginSubpassWhileSubpassBegan index (m_currentRenderSubPassID s) (m_currentRenderPassID s)))
      else if \<not> (0 \<le> m_currentRenderPassID s \<and> nat (m_currentRenderPassID s) < length (m_passes s))
      then Inl VectorOutOfRange
      else if index \<ge> getSubPassesCount (m_passes s ! nat (m_currentRenderPassID s))
      then Inl (Throw (NotCreated index))
      else on_pass (m_currentRenderPassID s) (startSubPass index) (s\<lparr>m_currentRenderSubPassID := int index\<rparr>))"

definition endRenderSubPass :: "WdeRenderPipelineInstance \<Rightarrow> WdeRenderPipelineInstance result" where
  "endRenderSubPass s =
     (if m_currentRenderPassID s = - 1
      then Inl (Throw (EndSubpassOutsidePass (m_currentRenderSubPassID s)))
      else case on_pass (m_currentRenderPassID s) (endSubPass (m_currentRenderSubPassID s)) s of
             Inl e \<Rightarrow> Inl e
           | Inr s' \<Rightarrow> Inr (s'\<lparr>m_currentRenderSubPassID := - 1\<rparr>))"


section \<open>Declaring the structure\<close>

text \<open>
  The two loops of \<^verbatim>\<open>setStructure\<close>. The inner one walks the subpasses of one pass with
  the counter \<^verbatim>\<open>iterator2\<close>; the outer one walks the passes with \<^verbatim>\<open>iterator\<close> and
  pushes one runtime pass per entry onto \<^verbatim>\<open>_passes\<close>. The first mismatch throws and
  ends the walk.
\<close>

fun check_subpasses :: "nat \<Rightarrow> nat \<Rightarrow> RenderSubpassStructure list \<Rightarrow> unit result" where
  "check_subpasses iterator iterator2 [] = Inr ()"
| "check_subpasses iterator iterator2 (sub # subs) =
     (if iterator2 \<noteq> subpassID sub
      then Inl (Throw (MissingRenderSubpass iterator2 iterator))
      else check_subpasses iterator (iterator2 + 1) subs)"

fun create_passes :: "RenderAttachment list \<Rightarrow> nat \<Rightarrow> RenderPassStructure list \<Rightarrow> RenderPass list \<Rightarrow> RenderPass list result" where
  "create_passes atts iterator [] passes = Inr passes"
| "create_passes atts iterator (str # strs) passes =
     (if iterator \<noteq> passID str
      then Inl (Throw (MissingRenderPass iterator))
      else case check_subpasses iterator 0 (subPasses str) of
             Inl e \<Rightarrow> Inl e
           | Inr _ \<Rightarrow> create_passes atts (iterator + 1) strs
                        (passes @ [new_RenderPass atts (subPasses str)]))"

definition setStructure :: "RenderPassStructure list \<Rightarrow> WdeRenderPipelineInstance \<Rightarrow> WdeRenderPipelineInstance result" where
  "setStructure structure s =
     (let s1 = s\<lparr>m_structure := structure\<rparr> in
      if m_attachments s1 = []
      then Inl (Throw PassesBeforeAttachments)
      else case create_passes (m_attachments s1) 0 structure (m_passes s1) of
             Inl e \<Rightarrow> Inl e
           | Inr passes \<Rightarrow> Inr (s1\<lparr>m_passes := passes\<rparr>))"

definition onWindowResized :: "WdeRenderPipelineInstance \<Rightarrow> WdeRenderPipelineInstance result" where
  "onWindowResized s = setStructure (m_structure s) (s\<lparr>m_passes := []\<rparr>)"


section \<open>States of the pass and subpass protocol\<close>

text \<open>
  The protocol states of the spec, read off the two current ids: outside of every pass,
  inside a pass, inside a subpass of a pass.
\<close>

datatype PassState = Outside | InPass int | InPassAndSubpass int int

definition pass_state :: "WdeRenderPipelineInstance \<Rightarrow> PassState" where
  "pass_state s =
     (if m_currentRenderPassID s = - 1 then Outside
      else if m_currentRenderSubPassID s = - 1 then InPass (m_currentRenderPassID s)
      else InPassAndSubpass (m_currentRenderPassID s) (m_currentRenderSubPassID s))"

text \<open>
  The states the four operations can reach from a new instance: no subpass is current
  outside of a pass, the current pass is one of the runtime passes, and the current
  subpass is one of its subpasses.
\<close>

definition well_formed :: "WdeRenderPipelineInstance \<Rightarrow> bool" where
  "well_formed s =
     (if m_currentRenderPassID s = - 1 then m_currentRenderSubPassID s = - 1
      else 0 \<le> m_currentRenderPassID s \<and> nat (m_currentRenderPassID s) < length (m_passes s) \<and>
           (m_currentRenderSubPassID s = - 1 \<or>
            0 \<le> m_currentRenderSubPassID s \<and>
            nat (m_currentRenderSubPassID s) <
              getSubPassesCount (m_passes s ! nat (m_currentRenderPassID s))))"


section \<open>Contiguous structures\<close>

text \<open>
  What the spec asks of a declared structure: the subpass ids of a pass are exactly
  \<open>0, 1, \<dots>, m - 1\<close> in this order, and the pass ids are exactly \<open>0, 1, \<dots>, n - 1\<close> in
  this order with every pass contiguous inside.
\<close>

definition contiguous_subpasses :: "RenderSubpassStructure list \<Rightarrow> bool" where
  "contiguous_subpasses subs = (map subpassID subs = [0..<length subs])"

definition contiguous_structure :: "RenderPassStructure list \<Rightarrow> bool" where
  "contiguous_structure structure =
     (map passID structure = [0..<length structure] \<and>
      list_all (\<lambda>str. contiguous_subpasses (subPasses str)) structure)"


section \<open>The pipeline of the 3D cube example\<close>

text \<open>
  \<^verbatim>\<open>PipelineExample02::setup\<close>: a depth and a swapchain attachment, and one pass with
  two subpasses. \<open>example_passes\<close> are the runtime passes that \<^verbatim>\<open>setStructure\<close> builds from
  them, \<open>example_instance\<close> is the instance after \<^verbatim>\<open>setup\<close>.
\<close>

definition example_attachments :: "RenderAttachment list" where
  "example_attachments =
     [\<lparr>bindingIndex = 0, description = ''Depth texture'', attachmentType = DEPTH\<rparr>,
      \<lparr>bindingIndex = 1, description = ''Swapchain attachment'', attachmentType = SWAPCHAIN\<rparr>]"

definition example_subpasses :: "RenderSubpassStructure list" where
  "example_subpasses =
     [\<lparr>subpassID = 0, readAttachments = [], writeAttachments = [0, 1]\<rparr>,
      \<lparr>subpassID = 1, readAttachments = [], writeAttachments = [1]\<rparr>]"

definition example_structure :: "RenderPassStructure list" where
  "example_structure = [\<lparr>passID = 0, subPasses = example_subpasses\<rparr>]"

definition example_instance :: WdeRenderPipelineInstance where
  "example_instance =
     \<lparr>m_attachments = example_attachments, m_structure = example_structure,
      m_passes = [new_RenderPass example_attachments example_subpasses],
      m_currentRenderPassID = - 1, m_currentRenderSubPassID = - 1\<rparr>"

text \<open>
  The example instance after \<^verbatim>\<open>beginRenderPass(0)\<close>, and after
  \<^verbatim>\<open>beginRenderSubPass(1)\<close> inside that pass.
\<close>

definition example_in_pass :: WdeRenderPipelineInstance where
  "example_in_pass = example_instance\<lparr>m_currentRenderPassID := 0,
       m_passes := [start (new_RenderPass example_attachments example_subpasses)]\<rparr>"

definition example_in_subpass :: WdeRenderPipelineInstance where
  "example_in_subpass = example_in_pass\<lparr>m_currentRenderSubPassID := 1,
       m_passes := [startSubPass 1 (start (new_RenderPass example_attachments example_subpasses))]\<rparr>"

text \<open>
  The instance of the example after \<^verbatim>\<open>setAttachments\<close> and before \<^verbatim>\<open>setStructure\<close>, and
  the two malformed structures of the spec's testable properties: passes declared as
  \<open>[0, 2]\<close>, and pass 0 with subpasses declared as \<open>[0, 2]\<close>.
\<close>

definition pass_gap_structure :: "RenderPassStructure list" where
  "pass_gap_structure =
     [\<lparr>passID = 0, subPasses = example_subpasses\<rparr>, \<lparr>passID = 2, subPasses = example_subpasses\<rparr>]"

definition subpass_gap_structure :: "RenderPassStructure list" where
  "subpass_gap_structure =
     [\<lparr>passID = 0, subPasses =
        [\<lparr>subpassID = 0, readAttachments = [], writeAttachments = [0, 1]\<rparr>,
         \<lparr>subpassID = 2, readAttachments = [], writeAttachments = [1]\<rparr>]\<rparr>]"

definition example_declared :: WdeRenderPipelineInstance where
  "example_declared = setAttachments example_attachments new_instance"

section \<open>The frame loop\<close>

text \<open>
  \<^verbatim>\<open>CoreInstance.hpp\<close>: \<^verbatim>\<open>_currentFrame\<close> is a \<^verbatim>\<open>std::size_t\<close> (64 bits),
  \<^verbatim>\<open>_currentFramesInFlightCount\<close> an \<^verbatim>\<open>int\<close> (32 bits, read with \<open>sint\<close>), and
  \<^verbatim>\<open>_commandBuffers\<close> holds one command buffer per frame slot.
  \<^verbatim>\<open>CommandBuffer.hpp\<close>: a command buffer knows whether it is \<^verbatim>\<open>_running\<close>.
\<close>

record CommandBuffer =
  m_running :: bool

text \<open>
  What \<^verbatim>\<open>tick\<close> asks of the device and of the swapchain, in the order it asks. The
  swapchain's fences and semaphores are named by their position in
  \<^verbatim>\<open>getInFlightFences()\<close>, \<^verbatim>\<open>getImageAvailableSemaphores()\<close> and
  \<^verbatim>\<open>getRenderFinishedSemaphores()\<close>; a command buffer by its position in
  \<^verbatim>\<open>getCommandBuffers()\<close>, which is its frame slot.
\<close>

datatype DeviceCall =
    AcquireNextImage nat
      \<comment> \<open>the swapchain hands out the image with this index\<close>
  | Begin nat
      \<comment> \<open>\<^verbatim>\<open>begin()\<close> on the command buffer of this slot\<close>
  | Render nat
      \<comment> \<open>the render callback has recorded into the command buffer of this slot\<close>
  | WaitForFences nat
      \<comment> \<open>\<^verbatim>\<open>vkWaitForFences\<close> on the in-flight fence at this position\<close>
  | EndRecording nat
      \<comment> \<open>\<^verbatim>\<open>end()\<close> on the command buffer of this slot\<close>
  | Submit nat nat nat nat
      \<comment> \<open>\<^verbatim>\<open>submit\<close> of the command buffer of this slot, with the positions of the fence to
          signal, of the image-available semaphore to wait for and of the render-finished
          semaphore to signal\<close>
  | PresentToQueue nat
      \<comment> \<open>presentation of the image with this index\<close>

text \<open>
  Modelled from the spec: \<^verbatim>\<open>Swapchain.hpp\<close> is not among the sources. The swapchain
  keeps the index of the image it handed out last, the \<^verbatim>\<open>uint32_t\<close> that image
  acquisition writes; \<^verbatim>\<open>getActiveImageIndex\<close> reads it.
\<close>

record Engine =
  m_currentFramesInFlightCount :: "32 word"
  m_currentFrame :: "64 word"
  m_commandBuffers :: "CommandBuffer list"
  m_activeImageIndex :: "32 word"
  pipeline :: WdeRenderPipelineInstance
  device_calls :: "DeviceCall list"

definition call :: "DeviceCall \<Rightarrow> Engine \<Rightarrow> Engine" where
  "call c s = s\<lparr>device_calls := device_calls s @ [c]\<rparr>"

text \<open>
  Modelled from the spec: \<^verbatim>\<open>Swapchain.cpp\<close> and \<^verbatim>\<open>CommandBuffer.cpp\<close> are not among the
  sources. \<^verbatim>\<open>aquireNextImage\<close> obtains the index of the next presentable image from the
  presentation surface, here the argument \<open>img\<close>. \<^verbatim>\<open>begin\<close> takes a command buffer from
  idle to recording, \<^verbatim>\<open>end\<close> from recording back, and \<^verbatim>\<open>end\<close> fails on a command buffer
  that is not recording.
\<close>

definition aquireNextImage :: "32 word \<Rightarrow> Engine \<Rightarrow> Engine" where
  "aquireNextImage img s = call (AcquireNextImage (unat img)) (s\<lparr>m_activeImageIndex := img\<rparr>)"

definition begin_recording :: "nat \<Rightarrow> Engine \<Rightarrow> Engine" where
  "begin_recording slot s =
     call (Begin slot)
       (s\<lparr>m_commandBuffers := (m_commandBuffers s)[slot := (m_commandBuffers s ! slot)\<lparr>m_running := True\<rparr>]\<rparr>)"

definition end_recording :: "nat \<Rightarrow> Engine \<Rightarrow> Engine" where
  "end_recording slot s =
     call (EndRecording slot)
       (s\<lparr>m_commandBuffers := (m_commandBuffers s)[slot := (m_commandBuffers s ! slot)\<lparr>m_running := False\<rparr>]\<rparr>)"

text \<open>
  \<^verbatim>\<open>WdeRenderPipelineInstance::tick\<close>, statement by statement. Its surroundings are
  arguments: \<open>render\<close> is the application's render callback, which works on the pipeline
  instance through the four pass operations and may throw; \<open>img\<close> is the image index the
  presentation surface hands out; \<open>presented\<close> says whether \<^verbatim>\<open>presentToQueue\<close> returned
  \<^verbatim>\<open>VK_SUCCESS\<close>. The result is the state the tick leaves together with the fault that
  ended it, if one did: what the device was asked before a throw stays asked.

  The index of the fence to wait for is computed in \<^verbatim>\<open>uint32_t\<close>: the \<^verbatim>\<open>int\<close> operands
  \<^verbatim>\<open>1\<close> and \<^verbatim>\<open>getMaxFramesInFlight()\<close> are converted to it, so the subtraction wraps at
  image 0. The next frame is computed in \<^verbatim>\<open>std::size_t\<close>, with the frame count
  sign-extended to it.
\<close>

definition tick :: "(WdeRenderPipelineInstance \<Rightarrow> WdeRenderPipelineInstance result) \<Rightarrow> 32 word \<Rightarrow> bool \<Rightarrow> Engine \<Rightarrow> fault option \<times> Engine" where
  "tick render img presented s0 =
     (let s1 = aquireNextImage img s0;
          slot = unat (m_currentFrame s1)
      in if \<not> slot < length (m_commandBuffers s1) then (Some VectorOutOfRange, s1)
      else
        let s2 = (if \<not> m_running (m_commandBuffers s1 ! slot) then begin_recording slot s1 else s1)
        in case render (pipeline s2) of
             Inl f \<Rightarrow> (Some f, s2)
           | Inr p \<Rightarrow>
               let s3 = call (Render slot) (s2\<lparr>pipeline := p\<rparr>)
               in if m_currentFramesInFlightCount s3 = 0 then (Some DivisionByZero, s3)
               else
                 let s4 = call (WaitForFences
                            (unat ((m_activeImageIndex s3 - 1) mod m_currentFramesInFlightCount s3))) s3
                 in if \<not> m_running (m_commandBuffers s4 ! slot)
                    then (Some (Throw CommandBufferNotRecording), s4)
                    else
                      let s5 = end_recording slot s4;
                          s6 = call (Submit slot (unat (m_activeImageIndex s5))
                                  (unat (m_activeImageIndex s5)) (unat (m_activeImageIndex s5))) s5;
                          s7 = call (PresentToQueue (unat (m_activeImageIndex s6))) s6
                      in if \<not> presented then (Some (Throw FailedToPresent), s7)
                         else (None,
                           s7\<lparr>m_currentFrame :=
                                (m_currentFrame s7 + 1) mod scast (m_currentFramesInFlightCount s7)\<rparr>))"

text \<open>
  The frame loop: one tick after the other, each with the image index and the
  presentation result of its turn, until one ends with a fault.
\<close>

fun ticks :: "(WdeRenderPipelineInstance \<Rightarrow> WdeRenderPipelineInstance result) \<Rightarrow> (32 word \<times> bool) list \<Rightarrow> Engine \<Rightarrow> fault option \<times> Engine" where
  "ticks render [] s = (None, s)"
| "ticks render ((img, presented) # turns) s =
     (case tick render img presented s of
        (None, s') \<Rightarrow> ticks render turns s'
      | (Some f, s') \<Rightarrow> (Some f, s'))"

text \<open>
  Reading the calls of a tick: the calls a state has added to an earlier one, the fences
  waited for, the calls made before the first wait, the frame slots rendered into, and the
  fences given to \<^verbatim>\<open>submit\<close>.
\<close>

definition calls_since :: "Engine \<Rightarrow> Engine \<Rightarrow> DeviceCall list" where
  "calls_since s s' = drop (length (device_calls s)) (device_calls s')"

fun waited_fence :: "DeviceCall \<Rightarrow> nat option" where
  "waited_fence (WaitForFences k) = Some k"
| "waited_fence _ = None"

fun rendered_slot :: "DeviceCall \<Rightarrow> nat option" where
  "rendered_slot (Render slot) = Some slot"
| "rendered_slot _ = None"

definition fences_waited :: "DeviceCall list \<Rightarrow> nat list" where
  "fences_waited calls = List.map_filter waited_fence calls"

definition frame_slots :: "DeviceCall list \<Rightarrow> nat list" where
  "frame_slots calls = List.map_filter rendered_slot calls"

definition before_first_wait :: "DeviceCall list \<Rightarrow> DeviceCall list" where
  "before_first_wait calls = takeWhile (\<lambda>c. waited_fence c = None) calls"

fun submitted :: "DeviceCall \<Rightarrow> bool" where
  "submitted (Submit slot fence wait signal) = True"
| "submitted _ = False"

definition submits :: "DeviceCall list \<Rightarrow> DeviceCall list" where
  "submits calls = filter submitted calls"

text \<open>
  The calls of a tick that runs to its end, from the state it starts in and the image it
  acquires.
\<close>

definition tick_calls :: "Engine \<Rightarrow> 32 word \<Rightarrow> DeviceCall list" where
  "tick_calls s img =
     AcquireNextImage (unat img) #
     (if m_running (m_commandBuffers s ! unat (m_currentFrame s)) then []
      else [Begin (unat (m_currentFrame s))]) @
     [Render (unat (m_currentFrame s)),
      WaitForFences (unat ((img - 1) mod m_currentFramesInFlightCount s)),
      EndRecording (unat (m_currentFrame s)),
      Submit (unat (m_currentFrame s)) (unat img) (unat img) (unat img),
      PresentToQueue (unat img)]"

text \<open>
  The spec's reading of a tick, to compare the calls of \<^verbatim>\<open>tick\<close> with. The fence of
  the frame slot is waited for before the command buffer of the slot is begun; and the
  one submission of the tick signals the fence of the frame slot, while its two
  semaphores are those of the acquired image.
\<close>

definition waits_before_reuse :: "nat \<Rightarrow> DeviceCall list \<Rightarrow> bool" where
  "waits_before_reuse slot calls = (WaitForFences slot \<in> set (takeWhile (\<lambda>c. c \<noteq> Begin slot) calls))"

definition submits_with_slot_fence :: "nat \<Rightarrow> nat \<Rightarrow> DeviceCall list \<Rightarrow> bool" where
  "submits_with_slot_fence slot image_index calls =
     (submits calls = [Submit slot slot image_index image_index])"

text \<open>
  The pass sequence of \<^verbatim>\<open>PipelineExample02::render\<close> (the draw calls between the
  boundaries leave the pass state alone), and an engine with three frames in flight, as
  \<^verbatim>\<open>CoreInstance\<close> initialises them, about to draw its first frame with the example
  pipeline.
\<close>

definition example_render :: "WdeRenderPipelineInstance \<Rightarrow> WdeRenderPipelineInstance result" where
  "example_render s =
     (case beginRenderPass 0 s of Inl f \<Rightarrow> Inl f | Inr s1 \<Rightarrow>
      case beginRenderSubPass 0 s1 of Inl f \<Rightarrow> Inl f | Inr s2 \<Rightarrow>
      case endRenderSubPass s2 of Inl f \<Rightarrow> Inl f | Inr s3 \<Rightarrow>
      case beginRenderSubPass 1 s3 of Inl f \<Rightarrow> Inl f | Inr s4 \<Rightarrow>
      case endRenderSubPass s4 of Inl f \<Rightarrow> Inl f | Inr s5 \<Rightarrow>
      endRenderPass s5)"

definition example_engine :: Engine where
  "example_engine =
     \<lparr>m_currentFramesInFlightCount = 3, m_currentFrame = 0,
      m_commandBuffers = [\<lparr>m_running = False\<rparr>, \<lparr>m_running = False\<rparr>, \<lparr>m_running = False\<rparr>],
      m_activeImageIndex = 0, pipeline = example_instance, device_calls = []\<rparr>"

text \<open>
  Five turns of the frame loop, every presentation successful.
\<close>

definition example_turns :: "(32 word \<times> bool) list" where
  "example_turns = [(0, True), (1, True), (2, True), (0, True), (1, True)]"


section \<open>The protocol states are closed under the operations\<close>

lemma getSubPassesCount_calls:
  "getSubPassesCount (start p) = getSubPassesCount p"
  "getSubPassesCount (end_pass p) = getSubPassesCount p"
  "getSubPassesCount (startSubPass k p) = getSubPassesCount p"
  "getSubPassesCount (endSubPass j p) = getSubPassesCount p"
  by (simp_all add: getSubPassesCount_def start_def end_pass_def startSubPass_def endSubPass_def)

lemma well_formed_new_instance: "well_formed new_instance"
  by (simp add: well_formed_def new_instance_def)

lemma well_formed_example_instance: "well_formed example_instance"
  by (simp add: well_formed_def example_instance_def)

lemma beginRenderPass_well_formed:
  assumes "well_formed s" and "beginRenderPass index s = Inr s'"
  shows "well_formed s'"
  using assms
  by (auto simp add: beginRenderPass_def on_pass_def well_formed_def split: if_splits)

lemma endRenderPass_well_formed:
  assumes "well_formed s" and "endRenderPass s = Inr s'"
  shows "well_formed s'"
  using assms
  by (auto simp add: endRenderPass_def on_pass_def well_formed_def split: if_splits)

lemma beginRenderSubPass_well_formed:
  assumes "well_formed s" and "beginRenderSubPass index s = Inr s'"
  shows "well_formed s'"
  using assms
  by (auto simp add: beginRenderSubPass_def on_pass_def well_formed_def getSubPassesCount_calls split: if_splits)

lemma endRenderSubPass_well_formed:
  assumes "well_formed s" and "endRenderSubPass s = Inr s'"
  shows "well_formed s'"
  using assms
  by (auto simp add: endRenderSubPass_def on_pass_def well_formed_def split: if_splits)

lemma create_passes_extends:
  "create_passes atts it strs passes = Inr passes' \<Longrightarrow> \<exists>new. passes' = passes @ new"
proof (induction atts it strs passes rule: create_passes.induct)
  case (1 atts iterator passes)
  then show ?case by simp
next
  case (2 atts iterator str strs passes)
  from "2.prems" have ok: "iterator = passID str"
    by (simp split: if_splits)
  from "2.prems" ok obtain u where checked: "check_subpasses iterator 0 (subPasses str) = Inr u"
    by (cases "check_subpasses iterator 0 (subPasses str)") simp_all
  with "2.prems" ok
  have "create_passes atts (iterator + 1) strs (passes @ [new_RenderPass atts (subPasses str)]) = Inr passes'"
    by simp
  with "2.IH" ok checked obtain new where "passes' = (passes @ [new_RenderPass atts (subPasses str)]) @ new"
    by blast
  then show ?case by simp
qed

lemma setStructure_well_formed:
  assumes "well_formed s" and "setStructure structure s = Inr s'"
  shows "well_formed s'"
proof -
  from assms(2) obtain passes where
    built: "create_passes (m_attachments s) 0 structure (m_passes s) = Inr passes"
    and s': "s' = s\<lparr>m_structure := structure, m_passes := passes\<rparr>"
    by (auto simp add: setStructure_def Let_def split: if_splits sum.splits)
  from create_passes_extends [OF built] obtain new where "passes = m_passes s @ new"
    by blast
  with assms(1) s' show ?thesis
    by (auto simp add: well_formed_def nth_append split: if_splits)
qed

lemma example_states:
  "well_formed example_instance" "pass_state example_instance = Outside"
  "well_formed example_in_pass" "pass_state example_in_pass = InPass 0"
  "well_formed example_in_subpass" "pass_state example_in_subpass = InPassAndSubpass 0 1"
  by (simp_all add: example_in_subpass_def example_in_pass_def example_instance_def
        well_formed_def pass_state_def getSubPassesCount_calls)
     (simp_all add: getSubPassesCount_def new_RenderPass_def example_subpasses_def)


section \<open>Beginning a pass\<close>

text \<open>
  C5. In every state, \<^verbatim>\<open>beginRenderPass(index)\<close> throws the "has already began" error
  when a pass is current; otherwise it throws the "wasn't created" error when \<open>index\<close> is
  not below the number of runtime passes; otherwise it returns with \<open>index\<close> as the
  current pass and with the runtime pass at that position started, which takes the
  protocol from \<open>Outside\<close> to \<open>InPass index\<close>. Beginning pass 0 again right after
  beginning pass 0 throws the "has already began" error.
\<close>

theorem beginRenderPass_cases:
  "(pass_state s \<noteq> Outside \<longrightarrow>
      beginRenderPass index s = Inl (Throw (BeginPassWhilePassBegan index (m_currentRenderPassID s)))) \<and>
   (pass_state s = Outside \<and> index \<ge> length (m_passes s) \<longrightarrow>
      beginRenderPass index s = Inl (Throw (NotCreated index))) \<and>
   (pass_state s = Outside \<and> index < length (m_passes s) \<longrightarrow>
      beginRenderPass index s =
        Inr (s\<lparr>m_currentRenderPassID := int index,
               m_passes := (m_passes s)[index := start (m_passes s ! index)]\<rparr>)) \<and>
   (well_formed s \<and> pass_state s = Outside \<and> index < length (m_passes s) \<longrightarrow>
      (\<exists>s'. beginRenderPass index s = Inr s' \<and> pass_state s' = InPass (int index))) \<and>
   (\<forall>s'. beginRenderPass 0 s = Inr s' \<longrightarrow>
      beginRenderPass 0 s' = Inl (Throw (BeginPassWhilePassBegan 0 0)))"
proof (intro conjI impI allI)
  assume "pass_state s \<noteq> Outside"
  then have "m_currentRenderPassID s \<noteq> - 1"
    by (simp add: pass_state_def split: if_splits)
  then show "beginRenderPass index s = Inl (Throw (BeginPassWhilePassBegan index (m_currentRenderPassID s)))"
    by (simp add: beginRenderPass_def)
next
  assume "pass_state s = Outside \<and> index \<ge> length (m_passes s)"
  then show "beginRenderPass index s = Inl (Throw (NotCreated index))"
    by (simp add: beginRenderPass_def pass_state_def split: if_splits)
next
  assume "pass_state s = Outside \<and> index < length (m_passes s)"
  then show "beginRenderPass index s =
        Inr (s\<lparr>m_currentRenderPassID := int index,
               m_passes := (m_passes s)[index := start (m_passes s ! index)]\<rparr>)"
    by (simp add: beginRenderPass_def on_pass_def pass_state_def split: if_splits)
next
  assume a: "well_formed s \<and> pass_state s = Outside \<and> index < length (m_passes s)"
  then have "m_currentRenderPassID s = - 1" "m_currentRenderSubPassID s = - 1"
    by (simp_all add: pass_state_def well_formed_def split: if_splits)
  with a show "\<exists>s'. beginRenderPass index s = Inr s' \<and> pass_state s' = InPass (int index)"
    by (simp add: beginRenderPass_def on_pass_def pass_state_def)
next
  fix s'
  assume "beginRenderPass 0 s = Inr s'"
  then have "m_currentRenderPassID s' = 0"
    by (auto simp add: beginRenderPass_def on_pass_def split: if_splits)
  then show "beginRenderPass 0 s' = Inl (Throw (BeginPassWhilePassBegan 0 0))"
    by (simp add: beginRenderPass_def)
qed

theorem beginRenderPass_cases_witness:
  "pass_state example_instance = Outside \<and>
   beginRenderPass 0 example_instance = Inr example_in_pass \<and>
   pass_state example_in_pass = InPass 0 \<and>
   beginRenderPass 0 example_in_pass = Inl (Throw (BeginPassWhilePassBegan 0 0)) \<and>
   beginRenderPass 1 example_instance = Inl (Throw (NotCreated 1))"
proof -
  have len: "length (m_passes example_instance) = 1"
    by (simp add: example_instance_def)
  have first: "beginRenderPass 0 example_instance = Inr example_in_pass"
    using beginRenderPass_cases [of example_instance 0] example_states(2) len
    by (simp add: example_in_pass_def) (simp add: example_instance_def)
  have again: "beginRenderPass 0 example_in_pass = Inl (Throw (BeginPassWhilePassBegan 0 0))"
    using beginRenderPass_cases [of example_instance 0] first by blast
  have beyond: "beginRenderPass 1 example_instance = Inl (Throw (NotCreated 1))"
    using beginRenderPass_cases [of example_instance 1] example_states(2) len by simp
  from first again beyond show ?thesis
    using example_states(2,4) by simp
qed

section \<open>Beginning a subpass\<close>

text \<open>
  C6. \<^verbatim>\<open>beginRenderSubPass(index)\<close> throws the "outside of a render pass" error when no
  pass is current; otherwise the "subpass has already began" error when a subpass is
  current; otherwise the "wasn't created" error when \<open>index\<close> is not below the subpass
  count of the current pass; otherwise it returns with \<open>index\<close> as the current subpass,
  which takes the protocol from \<open>InPass\<close> to \<open>InPassAndSubpass\<close>.
\<close>

theorem beginRenderSubPass_cases:
  "(pass_state s = Outside \<longrightarrow>
      beginRenderSubPass index s = Inl (Throw (BeginSubpassOutsidePass index))) \<and>
   (\<forall>p k. pass_state s = InPassAndSubpass p k \<longrightarrow>
      beginRenderSubPass index s = Inl (Throw (BeginSubpassWhileSubpassBegan index k p))) \<and>
   (\<forall>p. well_formed s \<and> pass_state s = InPass p \<and>
        index \<ge> getSubPassesCount (m_passes s ! nat p) \<longrightarrow>
      beginRenderSubPass index s = Inl (Throw (NotCreated index))) \<and>
   (\<forall>p. well_formed s \<and> pass_state s = InPass p \<and>
        index < getSubPassesCount (m_passes s ! nat p) \<longrightarrow>
      beginRenderSubPass index s =
        Inr (s\<lparr>m_currentRenderSubPassID := int index,
               m_passes := (m_passes s)[nat p := startSubPass index (m_passes s ! nat p)]\<rparr>) \<and>
      pass_state (s\<lparr>m_currentRenderSubPassID := int index,
               m_passes := (m_passes s)[nat p := startSubPass index (m_passes s ! nat p)]\<rparr>)
        = InPassAndSubpass p (int index))"
proof (intro conjI impI allI)
  assume "pass_state s = Outside"
  then show "beginRenderSubPass index s = Inl (Throw (BeginSubpassOutsidePass index))"
    by (simp add: beginRenderSubPass_def pass_state_def split: if_splits)
next
  fix p k
  assume "pass_state s = InPassAndSubpass p k"
  then show "beginRenderSubPass index s = Inl (Throw (BeginSubpassWhileSubpassBegan index k p))"
    by (simp add: beginRenderSubPass_def pass_state_def split: if_splits)
next
  fix p
  assume a: "well_formed s \<and> pass_state s = InPass p \<and> index \<ge> getSubPassesCount (m_passes s ! nat p)"
  then have ids: "m_currentRenderPassID s = p" "p \<noteq> - 1" "m_currentRenderSubPassID s = - 1"
    by (simp_all add: pass_state_def split: if_splits)
  with a have "0 \<le> p \<and> nat p < length (m_passes s)"
    by (simp add: well_formed_def)
  with a ids show "beginRenderSubPass index s = Inl (Throw (NotCreated index))"
    by (simp add: beginRenderSubPass_def)
next
  fix p
  assume a: "well_formed s \<and> pass_state s = InPass p \<and> index < getSubPassesCount (m_passes s ! nat p)"
  then have ids: "m_currentRenderPassID s = p" "p \<noteq> - 1" "m_currentRenderSubPassID s = - 1"
    by (simp_all add: pass_state_def split: if_splits)
  with a have "0 \<le> p \<and> nat p < length (m_passes s)"
    by (simp add: well_formed_def)
  with a ids show "beginRenderSubPass index s =
        Inr (s\<lparr>m_currentRenderSubPassID := int index,
               m_passes := (m_passes s)[nat p := startSubPass index (m_passes s ! nat p)]\<rparr>)"
    by (simp add: beginRenderSubPass_def on_pass_def)
  from ids show "pass_state (s\<lparr>m_currentRenderSubPassID := int index,
               m_passes := (m_passes s)[nat p := startSubPass index (m_passes s ! nat p)]\<rparr>)
        = InPassAndSubpass p (int index)"
    by (simp add: pass_state_def)
qed

theorem beginRenderSubPass_cases_witness:
  "pass_state example_instance = Outside \<and>
   beginRenderSubPass 1 example_instance = Inl (Throw (BeginSubpassOutsidePass 1)) \<and>
   pass_state example_in_subpass = InPassAndSubpass 0 1 \<and>
   beginRenderSubPass 0 example_in_subpass = Inl (Throw (BeginSubpassWhileSubpassBegan 0 1 0)) \<and>
   well_formed example_in_pass \<and> pass_state example_in_pass = InPass 0 \<and>
   getSubPassesCount (m_passes example_in_pass ! nat 0) = 2 \<and>
   beginRenderSubPass 2 example_in_pass = Inl (Throw (NotCreated 2)) \<and>
   beginRenderSubPass 1 example_in_pass = Inr example_in_subpass"
proof -
  have n: "getSubPassesCount (m_passes example_in_pass ! nat 0) = 2"
    by (simp add: example_in_pass_def getSubPassesCount_calls)
       (simp add: getSubPassesCount_def new_RenderPass_def example_subpasses_def)
  have "example_in_pass\<lparr>m_currentRenderSubPassID := int 1,
          m_passes := (m_passes example_in_pass)[nat 0 := startSubPass 1 (m_passes example_in_pass ! nat 0)]\<rparr>
        = example_in_subpass"
    by (simp add: example_in_subpass_def example_in_pass_def)
  with n show ?thesis
    using beginRenderSubPass_cases [of example_instance 1]
      beginRenderSubPass_cases [of example_in_subpass 0]
      beginRenderSubPass_cases [of example_in_pass 2]
      beginRenderSubPass_cases [of example_in_pass 1]
      example_states
    by simp
qed



section \<open>Ending a pass\<close>

lemma in_pass_ids:
  assumes "well_formed s" and "pass_state s \<noteq> Outside"
  shows "m_currentRenderPassID s \<noteq> - 1"
    and "0 \<le> m_currentRenderPassID s"
    and "nat (m_currentRenderPassID s) < length (m_passes s)"
  using assms by (simp_all add: well_formed_def pass_state_def split: if_splits)

text \<open>
  C7. In every state with a current pass, \<^verbatim>\<open>endRenderPass\<close> throws the "subpass has
  already began" error exactly when a subpass is current, and fails in no other way.
  With no current subpass it ends the current runtime pass and leaves no pass current,
  which takes the protocol from \<open>InPass\<close> to \<open>Outside\<close>. Where it throws,
  \<^verbatim>\<open>endRenderSubPass\<close> returns, and \<^verbatim>\<open>endRenderPass\<close> then returns as well.
\<close>

theorem endRenderPass_cases:
  assumes "well_formed s" and "pass_state s \<noteq> Outside"
  shows "(endRenderPass s =
            Inl (Throw (EndPassWhileSubpassBegan (m_currentRenderPassID s) (m_currentRenderSubPassID s)))
          \<longleftrightarrow> m_currentRenderSubPassID s \<noteq> - 1) \<and>
         ((\<exists>e. endRenderPass s = Inl e) \<longleftrightarrow> m_currentRenderSubPassID s \<noteq> - 1) \<and>
         (m_currentRenderSubPassID s = - 1 \<longrightarrow>
            endRenderPass s =
              Inr (s\<lparr>m_passes := (m_passes s)[nat (m_currentRenderPassID s) :=
                          end_pass (m_passes s ! nat (m_currentRenderPassID s))],
                     m_currentRenderPassID := - 1\<rparr>) \<and>
            (\<exists>s'. endRenderPass s = Inr s' \<and> pass_state s' = Outside)) \<and>
         (m_currentRenderSubPassID s \<noteq> - 1 \<longrightarrow>
            (\<exists>s1 s2. endRenderSubPass s = Inr s1 \<and> pass_state s1 = InPass (m_currentRenderPassID s) \<and>
                     endRenderPass s1 = Inr s2 \<and> pass_state s2 = Outside))"
proof -
  note ids = in_pass_ids [OF assms]
  show ?thesis
  proof (cases "m_currentRenderSubPassID s = - 1")
    case True
    with ids show ?thesis
      by (simp add: endRenderPass_def on_pass_def pass_state_def)
  next
    case False
    let ?s1 = "s\<lparr>m_passes := (m_passes s)[nat (m_currentRenderPassID s) :=
                        endSubPass (m_currentRenderSubPassID s) (m_passes s ! nat (m_currentRenderPassID s))],
                   m_currentRenderSubPassID := - 1\<rparr>"
    have fails: "endRenderPass s =
        Inl (Throw (EndPassWhileSubpassBegan (m_currentRenderPassID s) (m_currentRenderSubPassID s)))"
      using False by (simp add: endRenderPass_def)
    have sub: "endRenderSubPass s = Inr ?s1"
      using ids by (simp add: endRenderSubPass_def on_pass_def)
    have st1: "pass_state ?s1 = InPass (m_currentRenderPassID s)"
      using ids by (simp add: pass_state_def)
    have "\<exists>s2. endRenderPass ?s1 = Inr s2 \<and> pass_state s2 = Outside"
      using ids by (simp add: endRenderPass_def on_pass_def pass_state_def)
    with fails sub st1 False show ?thesis by simp
  qed
qed

theorem endRenderPass_cases_witness:
  "well_formed example_in_subpass \<and> pass_state example_in_subpass \<noteq> Outside \<and>
   m_currentRenderSubPassID example_in_subpass \<noteq> - 1 \<and>
   endRenderPass example_in_subpass = Inl (Throw (EndPassWhileSubpassBegan 0 1)) \<and>
   (\<exists>s1 s2. endRenderSubPass example_in_subpass = Inr s1 \<and> endRenderPass s1 = Inr s2 \<and>
      pass_state s2 = Outside) \<and>
   well_formed example_in_pass \<and> pass_state example_in_pass \<noteq> Outside \<and>
   m_currentRenderSubPassID example_in_pass = - 1 \<and>
   (\<exists>s'. endRenderPass example_in_pass = Inr s' \<and> pass_state s' = Outside)"
proof -
  have ids: "m_currentRenderPassID example_in_subpass = 0" "m_currentRenderSubPassID example_in_subpass = 1"
    "m_currentRenderSubPassID example_in_pass = - 1"
    by (simp_all add: example_in_subpass_def example_in_pass_def example_instance_def)
  have a: "pass_state example_in_subpass \<noteq> Outside" "pass_state example_in_pass \<noteq> Outside"
    using example_states by simp_all
  from endRenderPass_cases [OF example_states(5) a(1)] endRenderPass_cases [OF example_states(3) a(2)]
  show ?thesis
    using ids a example_states(3,5) by auto
qed


section \<open>Ending a subpass\<close>

text \<open>
  C8. \<^verbatim>\<open>endRenderSubPass\<close> throws exactly when no pass is current, and what it throws
  then is the "outside of a render pass" error, the only error it has. With a current
  pass it throws nothing whether or not a subpass is current: it passes the current
  subpass id on to the runtime pass and leaves the protocol in \<open>InPass\<close> with no current
  subpass.
\<close>

theorem endRenderSubPass_cases:
  "((\<exists>e. endRenderSubPass s = Inl (Throw e)) \<longleftrightarrow> pass_state s = Outside) \<and>
   (pass_state s = Outside \<longrightarrow>
      endRenderSubPass s = Inl (Throw (EndSubpassOutsidePass (m_currentRenderSubPassID s)))) \<and>
   (well_formed s \<and> pass_state s \<noteq> Outside \<longrightarrow>
      endRenderSubPass s =
        Inr (s\<lparr>m_passes := (m_passes s)[nat (m_currentRenderPassID s) :=
                    endSubPass (m_currentRenderSubPassID s) (m_passes s ! nat (m_currentRenderPassID s))],
               m_currentRenderSubPassID := - 1\<rparr>) \<and>
      (\<exists>s'. endRenderSubPass s = Inr s' \<and> well_formed s' \<and>
            pass_state s' = InPass (m_currentRenderPassID s)))"
proof (intro conjI impI)
  show "(\<exists>e. endRenderSubPass s = Inl (Throw e)) \<longleftrightarrow> pass_state s = Outside"
    by (auto simp add: endRenderSubPass_def on_pass_def pass_state_def split: if_splits)
next
  assume "pass_state s = Outside"
  then show "endRenderSubPass s = Inl (Throw (EndSubpassOutsidePass (m_currentRenderSubPassID s)))"
    by (simp add: endRenderSubPass_def pass_state_def split: if_splits)
next
  assume a: "well_formed s \<and> pass_state s \<noteq> Outside"
  then have ids: "m_currentRenderPassID s \<noteq> - 1" "0 \<le> m_currentRenderPassID s"
    "nat (m_currentRenderPassID s) < length (m_passes s)"
    by (simp_all add: in_pass_ids)
  then show r: "endRenderSubPass s =
        Inr (s\<lparr>m_passes := (m_passes s)[nat (m_currentRenderPassID s) :=
                    endSubPass (m_currentRenderSubPassID s) (m_passes s ! nat (m_currentRenderPassID s))],
               m_currentRenderSubPassID := - 1\<rparr>)"
    by (simp add: endRenderSubPass_def on_pass_def)
  from ids show "\<exists>s'. endRenderSubPass s = Inr s' \<and> well_formed s' \<and>
            pass_state s' = InPass (m_currentRenderPassID s)"
    unfolding r by (simp add: pass_state_def well_formed_def)
qed

theorem endRenderSubPass_cases_witness:
  "pass_state example_instance = Outside \<and>
   endRenderSubPass example_instance = Inl (Throw (EndSubpassOutsidePass (- 1))) \<and>
   well_formed example_in_pass \<and> pass_state example_in_pass \<noteq> Outside \<and>
   m_currentRenderSubPassID example_in_pass = - 1 \<and>
   (\<exists>s'. endRenderSubPass example_in_pass = Inr s' \<and> pass_state s' = InPass 0) \<and>
   well_formed example_in_subpass \<and> pass_state example_in_subpass \<noteq> Outside \<and>
   (\<exists>s'. endRenderSubPass example_in_subpass = Inr s' \<and> pass_state s' = InPass 0)"
proof -
  have ids: "m_currentRenderSubPassID example_instance = - 1"
    "m_currentRenderPassID example_in_pass = 0" "m_currentRenderSubPassID example_in_pass = - 1"
    "m_currentRenderPassID example_in_subpass = 0"
    by (simp_all add: example_in_subpass_def example_in_pass_def example_instance_def)
  have a: "pass_state example_in_subpass \<noteq> Outside" "pass_state example_in_pass \<noteq> Outside"
    using example_states by simp_all
  show ?thesis
    using endRenderSubPass_cases [of example_instance] endRenderSubPass_cases [of example_in_pass]
      endRenderSubPass_cases [of example_in_subpass] ids a example_states(1,2,3,5)
    by auto
qed


section \<open>Ending a pass outside of every pass\<close>

text \<open>
  C10. \<^verbatim>\<open>endRenderPass\<close> does not check that a pass is current. Outside of every pass
  the current pass id is \<open>-1\<close>, no error is thrown, and \<^verbatim>\<open>_passes\<close> is indexed with
  \<open>-1\<close>, which is outside of the vector: the call has no defined result. The two subpass
  operations throw their "outside of a render pass" error in the same state.
\<close>

theorem endRenderPass_outside:
  assumes "well_formed s" and "pass_state s = Outside"
  shows "m_currentRenderPassID s = - 1 \<and>
         on_pass (m_currentRenderPassID s) end_pass s = Inl VectorOutOfRange \<and>
         endRenderPass s = Inl VectorOutOfRange \<and>
         (\<forall>e. endRenderPass s \<noteq> Inl (Throw e)) \<and>
         (\<forall>s'. endRenderPass s \<noteq> Inr s') \<and>
         (\<forall>index. beginRenderSubPass index s = Inl (Throw (BeginSubpassOutsidePass index))) \<and>
         endRenderSubPass s = Inl (Throw (EndSubpassOutsidePass (- 1)))"
proof -
  from assms have ids: "m_currentRenderPassID s = - 1" "m_currentRenderSubPassID s = - 1"
    by (simp_all add: well_formed_def pass_state_def split: if_splits)
  then have idx: "on_pass (m_currentRenderPassID s) end_pass s = Inl VectorOutOfRange"
    by (simp add: on_pass_def)
  with ids have "endRenderPass s = Inl VectorOutOfRange"
    by (simp add: endRenderPass_def)
  with ids idx show ?thesis
    by (simp add: beginRenderSubPass_def endRenderSubPass_def)
qed

theorem endRenderPass_outside_witness:
  "well_formed example_instance \<and> pass_state example_instance = Outside \<and>
   endRenderPass example_instance = Inl VectorOutOfRange \<and>
   endRenderSubPass example_instance = Inl (Throw (EndSubpassOutsidePass (- 1))) \<and>
   beginRenderSubPass 0 example_instance = Inl (Throw (BeginSubpassOutsidePass 0))"
  using endRenderPass_outside [OF example_states(1,2)] example_states(1,2) by simp


section \<open>Walking the declared structure\<close>

lemma upt_shift_Cons:
  "x # xs = [k..<k + length (x # xs)] \<longleftrightarrow> x = k \<and> xs = [Suc k..<Suc k + length xs]"
proof -
  have "[k..<k + length (x # xs)] = k # [Suc k..<Suc k + length xs]"
    by (subst upt_rec) simp
  then show ?thesis
    by (simp only: list.inject)
qed

lemma check_subpasses_append:
  "map subpassID pre = [j..<j + length pre] \<Longrightarrow>
   check_subpasses it j (pre @ rest) = check_subpasses it (j + length pre) rest"
proof (induction pre arbitrary: j)
  case Nil
  then show ?case by simp
next
  case (Cons sub pre)
  from Cons.prems have "subpassID sub = j" and "map subpassID pre = [Suc j..<Suc j + length pre]"
    using upt_shift_Cons [of "subpassID sub" "map subpassID pre" j] by simp_all
  with Cons.IH [of "Suc j"] show ?case by simp
qed

lemma check_subpasses_contiguous:
  "contiguous_subpasses subs \<Longrightarrow> check_subpasses it 0 subs = Inr ()"
  using check_subpasses_append [of subs 0 it "[]"] by (simp add: contiguous_subpasses_def)

lemma check_subpasses_gap:
  assumes "j < length subs" and "contiguous_subpasses (take j subs)" and "subpassID (subs ! j) \<noteq> j"
  shows "check_subpasses it 0 subs = Inl (Throw (MissingRenderSubpass j it))"
proof -
  have split: "subs = take j subs @ subs ! j # drop (Suc j) subs"
    using assms(1) by (rule id_take_nth_drop)
  have len: "length (take j subs) = j"
    using assms(1) by simp
  have "check_subpasses it 0 (take j subs @ subs ! j # drop (Suc j) subs)
      = check_subpasses it (0 + length (take j subs)) (subs ! j # drop (Suc j) subs)"
    using assms(2) by (intro check_subpasses_append) (simp add: contiguous_subpasses_def)
  also have "\<dots> = Inl (Throw (MissingRenderSubpass j it))"
    using assms(3) len by simp
  finally show ?thesis using split by simp
qed

lemma create_passes_append:
  "map passID pre = [it..<it + length pre] \<Longrightarrow>
   list_all (\<lambda>str. contiguous_subpasses (subPasses str)) pre \<Longrightarrow>
   create_passes atts it (pre @ rest) passes =
     create_passes atts (it + length pre) rest
       (passes @ map (\<lambda>str. new_RenderPass atts (subPasses str)) pre)"
proof (induction pre arbitrary: it passes)
  case Nil
  then show ?case by simp
next
  case (Cons str pre)
  from Cons.prems(1) have "passID str = it" and "map passID pre = [Suc it..<Suc it + length pre]"
    using upt_shift_Cons [of "passID str" "map passID pre" it] by simp_all
  moreover from Cons.prems(2) have "check_subpasses it 0 (subPasses str) = Inr ()"
    and "list_all (\<lambda>str. contiguous_subpasses (subPasses str)) pre"
    by (simp_all add: check_subpasses_contiguous)
  ultimately show ?case
    using Cons.IH [of "Suc it" "passes @ [new_RenderPass atts (subPasses str)]"] by simp
qed

lemma contiguous_structure_take:
  "contiguous_structure structure \<Longrightarrow> contiguous_structure (take i structure)"
  unfolding contiguous_structure_def
proof (intro conjI)
  assume a: "map passID structure = [0..<length structure] \<and> list_all (\<lambda>str. contiguous_subpasses (subPasses str)) structure"
  then have "map passID (take i structure) = take i [0..<length structure]"
    by (simp add: take_map [symmetric])
  then show "map passID (take i structure) = [0..<length (take i structure)]"
    by (simp add: take_upt min_def)
  from a show "list_all (\<lambda>str. contiguous_subpasses (subPasses str)) (take i structure)"
    by (auto simp add: list_all_iff dest: in_set_takeD)
qed

lemma create_passes_prefix:
  assumes "i < length structure" and "contiguous_structure (take i structure)"
  shows "create_passes atts 0 structure passes =
     create_passes atts i (structure ! i # drop (Suc i) structure)
       (passes @ map (\<lambda>str. new_RenderPass atts (subPasses str)) (take i structure))"
proof -
  have len: "length (take i structure) = i"
    using assms(1) by simp
  have "create_passes atts 0 (take i structure @ structure ! i # drop (Suc i) structure) passes =
     create_passes atts (0 + length (take i structure)) (structure ! i # drop (Suc i) structure)
       (passes @ map (\<lambda>str. new_RenderPass atts (subPasses str)) (take i structure))"
    using assms(2) len by (intro create_passes_append) (simp_all add: contiguous_structure_def)
  then show ?thesis
    unfolding len using id_take_nth_drop [OF assms(1)] by (simp del: create_passes.simps)
qed

lemma example_declared_fields:
  "m_attachments example_declared = example_attachments" "m_passes example_declared = []"
  "example_attachments \<noteq> []"
  by (simp_all add: example_declared_def setAttachments_def new_instance_def example_attachments_def)

lemma contiguous_examples:
  "contiguous_subpasses example_subpasses"
  "contiguous_structure example_structure"
  "contiguous_structure (take 1 pass_gap_structure)"
  "contiguous_structure (take 0 subpass_gap_structure)"
  "contiguous_subpasses (take 1 (subPasses (subpass_gap_structure ! 0)))"
  by (simp_all add: contiguous_structure_def contiguous_subpasses_def example_structure_def
        example_subpasses_def pass_gap_structure_def subpass_gap_structure_def)

text \<open>
  C3. With attachments declared, \<^verbatim>\<open>setStructure\<close> walks the passes in order. At the first
  position \<open>i\<close> whose pass declares an id other than \<open>i\<close> it throws the missing render pass
  error naming \<open>i\<close>. At the first position \<open>j\<close> inside pass \<open>i\<close> whose subpass declares an
  id other than \<open>j\<close> it throws the missing render subpass error naming \<open>j\<close> and \<open>i\<close>. For
  a structure whose pass ids are \<open>0..n-1\<close> and whose subpass ids are \<open>0..m-1\<close> in every
  pass it returns, having pushed one runtime pass per entry, in order, each with the
  subpasses of its entry: \<open>n\<close> runtime passes with the declared subpass counts when no
  runtime pass existed before.
\<close>

theorem setStructure_walk:
  assumes "m_attachments s \<noteq> []"
  shows "(\<forall>i. i < length structure \<and> contiguous_structure (take i structure) \<and>
              passID (structure ! i) \<noteq> i \<longrightarrow>
            setStructure structure s = Inl (Throw (MissingRenderPass i))) \<and>
         (\<forall>i j. i < length structure \<and> contiguous_structure (take i structure) \<and>
              passID (structure ! i) = i \<and> j < length (subPasses (structure ! i)) \<and>
              contiguous_subpasses (take j (subPasses (structure ! i))) \<and>
              subpassID (subPasses (structure ! i) ! j) \<noteq> j \<longrightarrow>
            setStructure structure s = Inl (Throw (MissingRenderSubpass j i))) \<and>
         (contiguous_structure structure \<longrightarrow>
            setStructure structure s =
              Inr (s\<lparr>m_structure := structure,
                     m_passes := m_passes s @
                       map (\<lambda>str. new_RenderPass (m_attachments s) (subPasses str)) structure\<rparr>)) \<and>
         (contiguous_structure structure \<and> m_passes s = [] \<longrightarrow>
            (\<exists>s'. setStructure structure s = Inr s' \<and>
               length (m_passes s') = length structure \<and>
               map getSubPassesCount (m_passes s') = map (\<lambda>str. length (subPasses str)) structure))"
proof (intro conjI allI impI)
  fix i
  assume a: "i < length structure \<and> contiguous_structure (take i structure) \<and> passID (structure ! i) \<noteq> i"
  then have "create_passes (m_attachments s) 0 structure (m_passes s) = Inl (Throw (MissingRenderPass i))"
    using create_passes_prefix [of i "structure" "m_attachments s" "m_passes s"] by simp
  with assms show "setStructure structure s = Inl (Throw (MissingRenderPass i))"
    by (simp add: setStructure_def)
next
  fix i j
  assume a: "i < length structure \<and> contiguous_structure (take i structure) \<and>
              passID (structure ! i) = i \<and> j < length (subPasses (structure ! i)) \<and>
              contiguous_subpasses (take j (subPasses (structure ! i))) \<and>
              subpassID (subPasses (structure ! i) ! j) \<noteq> j"
  then have "check_subpasses i 0 (subPasses (structure ! i)) = Inl (Throw (MissingRenderSubpass j i))"
    by (simp add: check_subpasses_gap)
  with a have "create_passes (m_attachments s) 0 structure (m_passes s) = Inl (Throw (MissingRenderSubpass j i))"
    using create_passes_prefix [of i "structure" "m_attachments s" "m_passes s"] by simp
  with assms show "setStructure structure s = Inl (Throw (MissingRenderSubpass j i))"
    by (simp add: setStructure_def)
next
  assume a: "contiguous_structure structure"
  then have "create_passes (m_attachments s) 0 (structure @ []) (m_passes s) =
     create_passes (m_attachments s) (0 + length structure) []
       (m_passes s @ map (\<lambda>str. new_RenderPass (m_attachments s) (subPasses str)) structure)"
    by (intro create_passes_append) (simp_all add: contiguous_structure_def)
  with assms show "setStructure structure s =
              Inr (s\<lparr>m_structure := structure,
                     m_passes := m_passes s @
                       map (\<lambda>str. new_RenderPass (m_attachments s) (subPasses str)) structure\<rparr>)"
    by (simp add: setStructure_def)
next
  assume a: "contiguous_structure structure \<and> m_passes s = []"
  then have "create_passes (m_attachments s) 0 (structure @ []) (m_passes s) =
     create_passes (m_attachments s) (0 + length structure) []
       (m_passes s @ map (\<lambda>str. new_RenderPass (m_attachments s) (subPasses str)) structure)"
    by (intro create_passes_append) (simp_all add: contiguous_structure_def)
  with assms a show "\<exists>s'. setStructure structure s = Inr s' \<and>
               length (m_passes s') = length structure \<and>
               map getSubPassesCount (m_passes s') = map (\<lambda>str. length (subPasses str)) structure"
    by (simp add: setStructure_def getSubPassesCount_def new_RenderPass_def comp_def)
qed

theorem setStructure_walk_witness:
  "m_attachments example_declared \<noteq> [] \<and> m_passes example_declared = [] \<and>
   contiguous_structure example_structure \<and>
   setStructure example_structure example_declared = Inr example_instance \<and>
   length (m_passes example_instance) = length example_structure \<and>
   map getSubPassesCount (m_passes example_instance) = [2] \<and>
   1 < length pass_gap_structure \<and>
   contiguous_structure (take 1 pass_gap_structure) \<and> passID (pass_gap_structure ! 1) \<noteq> 1 \<and>
   setStructure pass_gap_structure example_declared = Inl (Throw (MissingRenderPass 1)) \<and>
   0 < length subpass_gap_structure \<and> 1 < length (subPasses (subpass_gap_structure ! 0)) \<and>
   contiguous_structure (take 0 subpass_gap_structure) \<and> passID (subpass_gap_structure ! 0) = 0 \<and>
   contiguous_subpasses (take 1 (subPasses (subpass_gap_structure ! 0))) \<and>
   subpassID (subPasses (subpass_gap_structure ! 0) ! 1) \<noteq> 1 \<and>
   setStructure subpass_gap_structure example_declared = Inl (Throw (MissingRenderSubpass 1 0))"
proof -
  have att: "m_attachments example_declared \<noteq> []"
    by (simp add: example_declared_fields)
  have ok: "setStructure example_structure example_declared = Inr example_instance"
    using setStructure_walk [OF att, of example_structure] contiguous_examples(2)
    by (simp add: example_declared_fields)
       (simp add: example_declared_def setAttachments_def new_instance_def example_instance_def
          example_structure_def)
  have gap_facts: "1 < length pass_gap_structure" "passID (pass_gap_structure ! 1) \<noteq> 1"
    by (simp_all add: pass_gap_structure_def)
  have gap: "setStructure pass_gap_structure example_declared = Inl (Throw (MissingRenderPass 1))"
    using setStructure_walk [OF att, of pass_gap_structure] contiguous_examples(3) gap_facts
    by blast
  have sub_facts: "0 < length subpass_gap_structure" "passID (subpass_gap_structure ! 0) = 0"
    "1 < length (subPasses (subpass_gap_structure ! 0))"
    "subpassID (subPasses (subpass_gap_structure ! 0) ! 1) \<noteq> 1"
    by (simp_all add: subpass_gap_structure_def)
  have subgap: "setStructure subpass_gap_structure example_declared = Inl (Throw (MissingRenderSubpass 1 0))"
    using setStructure_walk [OF att, of subpass_gap_structure] contiguous_examples(4,5) sub_facts
    by blast
  have counts: "length (m_passes example_instance) = length example_structure"
    "map getSubPassesCount (m_passes example_instance) = [2]"
    by (simp_all add: example_instance_def example_structure_def getSubPassesCount_def
          new_RenderPass_def example_subpasses_def)
  from att ok gap subgap counts gap_facts sub_facts contiguous_examples show ?thesis
    by (simp add: example_declared_fields)
qed


section \<open>Declaring the structure without attachments\<close>

lemma check_subpasses_error:
  "check_subpasses it j subs = Inl e \<Longrightarrow> \<exists>k. e = Throw (MissingRenderSubpass k it)"
  by (induction it j subs rule: check_subpasses.induct) (auto split: if_splits)

lemma create_passes_error:
  "create_passes atts it strs passes = Inl e \<Longrightarrow>
   (\<exists>i. e = Throw (MissingRenderPass i)) \<or> (\<exists>j i. e = Throw (MissingRenderSubpass j i))"
proof (induction atts it strs passes rule: create_passes.induct)
  case (1 atts iterator passes)
  then show ?case by simp
next
  case (2 atts iterator str strs passes)
  show ?case
  proof (cases "iterator \<noteq> passID str")
    case True
    with "2.prems" show ?thesis by auto
  next
    case False
    show ?thesis
    proof (cases "check_subpasses iterator 0 (subPasses str)")
      case (Inl e')
      with False "2.prems" have "e = e'" by simp
      with Inl show ?thesis by (auto dest: check_subpasses_error)
    next
      case (Inr u)
      with False "2.prems" "2.IH" show ?thesis by simp
    qed
  qed
qed

text \<open>
  C9. \<^verbatim>\<open>setStructure\<close> throws the "before creating attachments" error exactly when the
  attachment set is empty at the call, as it is on an instance that has declared none
  yet. With a non-empty attachment set the result is that of the walk over the passes.
\<close>

theorem setStructure_attachments:
  "(setStructure structure s = Inl (Throw PassesBeforeAttachments) \<longleftrightarrow> m_attachments s = []) \<and>
   (m_attachments s \<noteq> [] \<longrightarrow>
      setStructure structure s =
        (case create_passes (m_attachments s) 0 structure (m_passes s) of
           Inl e \<Rightarrow> Inl e
         | Inr passes \<Rightarrow> Inr (s\<lparr>m_structure := structure, m_passes := passes\<rparr>))) \<and>
   setStructure structure new_instance = Inl (Throw PassesBeforeAttachments)"
proof (intro conjI impI)
  show "setStructure structure s = Inl (Throw PassesBeforeAttachments) \<longleftrightarrow> m_attachments s = []"
  proof
    assume thrown: "setStructure structure s = Inl (Throw PassesBeforeAttachments)"
    show "m_attachments s = []"
    proof (rule ccontr)
      assume "m_attachments s \<noteq> []"
      with thrown have "create_passes (m_attachments s) 0 structure (m_passes s)
          = Inl (Throw PassesBeforeAttachments)"
        by (simp add: setStructure_def split: sum.splits)
      then show False
        by (auto dest: create_passes_error)
    qed
  next
    assume "m_attachments s = []"
    then show "setStructure structure s = Inl (Throw PassesBeforeAttachments)"
      by (simp add: setStructure_def)
  qed
next
  assume "m_attachments s \<noteq> []"
  then show "setStructure structure s =
        (case create_passes (m_attachments s) 0 structure (m_passes s) of
           Inl e \<Rightarrow> Inl e
         | Inr passes \<Rightarrow> Inr (s\<lparr>m_structure := structure, m_passes := passes\<rparr>))"
    by (simp add: setStructure_def)
next
  show "setStructure structure new_instance = Inl (Throw PassesBeforeAttachments)"
    by (simp add: setStructure_def new_instance_def)
qed

theorem setStructure_attachments_witness:
  "m_attachments new_instance = [] \<and>
   setStructure example_structure new_instance = Inl (Throw PassesBeforeAttachments) \<and>
   m_attachments example_declared \<noteq> [] \<and>
   setStructure example_structure example_declared \<noteq> Inl (Throw PassesBeforeAttachments) \<and>
   setStructure example_structure example_declared =
     (case create_passes example_attachments 0 example_structure [] of
        Inl e \<Rightarrow> Inl e
      | Inr passes \<Rightarrow> Inr (example_declared\<lparr>m_structure := example_structure, m_passes := passes\<rparr>))"
proof -
  have none: "m_attachments new_instance = []"
    by (simp add: new_instance_def)
  have some: "m_attachments example_declared \<noteq> []"
    by (simp add: example_declared_fields)
  have "setStructure example_structure new_instance = Inl (Throw PassesBeforeAttachments)"
    using setStructure_attachments [of example_structure new_instance] by blast
  moreover have "setStructure example_structure example_declared \<noteq> Inl (Throw PassesBeforeAttachments)"
    using setStructure_attachments [of example_structure example_declared] some by blast
  moreover have "setStructure example_structure example_declared =
     (case create_passes example_attachments 0 example_structure [] of
        Inl e \<Rightarrow> Inl e
      | Inr passes \<Rightarrow> Inr (example_declared\<lparr>m_structure := example_structure, m_passes := passes\<rparr>))"
    using setStructure_attachments [of example_structure example_declared] some
    unfolding example_declared_fields by blast
  ultimately show ?thesis
    using none some by blast
qed



section \<open>The calls of a tick\<close>

lemma calls_since_append: "device_calls s' = device_calls s @ cs \<Longrightarrow> calls_since s s' = cs"
  by (simp add: calls_since_def)

lemma tick_calls_prefix:
  assumes "tick render img presented s = (r, s')"
  shows "\<exists>cs. device_calls s' = device_calls s @ cs \<and> prefix cs (tick_calls s img)"
  using assms
  by (auto simp add: tick_def Let_def aquireNextImage_def begin_recording_def end_recording_def
        call_def tick_calls_def split: if_splits sum.splits)

lemma tick_completed:
  assumes "tick render img presented s = (None, s')"
  shows "device_calls s' = device_calls s @ tick_calls s img"
    and "m_currentFrame s' = (m_currentFrame s + 1) mod scast (m_currentFramesInFlightCount s)"
    and "m_currentFramesInFlightCount s' = m_currentFramesInFlightCount s"
    and "m_currentFramesInFlightCount s \<noteq> 0"
    and "length (m_commandBuffers s') = length (m_commandBuffers s)"
    and "unat (m_currentFrame s) < length (m_commandBuffers s)"
  using assms
  by (auto simp add: tick_def Let_def aquireNextImage_def begin_recording_def end_recording_def
        call_def tick_calls_def split: if_splits sum.splits)

lemma example_tick_completes: "fst (tick example_render 2 True example_engine) = None"
  by code_simp

lemma example_ticks_complete: "fst (ticks example_render example_turns example_engine) = None"
  by code_simp

lemma map_filter_append: "List.map_filter f (xs @ ys) = List.map_filter f xs @ List.map_filter f ys"
  by (simp add: List.map_filter_def)


section \<open>Frame counts and indices as machine integers\<close>

lemma uint_of_count:
  fixes n :: "32 word"
  assumes "0 \<le> sint n"
  shows "uint n = sint n"
proof (cases "uint n < 2 ^ 31")
  case True
  have "sint n = signed_take_bit 31 (uint n)"
    by (simp add: sint_uint)
  also have "\<dots> = uint n"
  proof (rule signed_take_bit_int_eq_self)
    show "- (2 ^ 31) \<le> uint n"
      by (rule order_trans [of _ 0]) simp_all
    show "uint n < 2 ^ 31"
      by (fact True)
  qed
  finally show ?thesis by simp
next
  case False
  then have "signed_take_bit 31 (uint n) \<le> uint n - 2 ^ Suc 31"
    by (intro signed_take_bit_int_less_eq) simp
  then have "signed_take_bit 31 (uint n) \<le> uint n - 4294967296"
    by simp
  moreover have "uint n < 4294967296"
    using uint_bounded [of n] by simp
  ultimately have "signed_take_bit 31 (uint n) < 0"
    by linarith
  moreover have "sint n = signed_take_bit 31 (uint n)"
    by (simp add: sint_uint)
  ultimately have "sint n < 0"
    by (simp only:)
  with assms show ?thesis by simp
qed

lemma unat_of_count:
  fixes n :: "32 word"
  assumes "0 \<le> sint n"
  shows "unat n = nat (sint n)"
proof -
  have "unat n = nat (uint n)"
    by (rule unat_eq_nat_uint)
  then show ?thesis
    by (simp only: uint_of_count [OF assms])
qed

lemma sint_count_bound:
  fixes n :: "32 word"
  shows "sint n < 2 ^ 31"
  using sint_lt [of n] by simp

lemma unat_scast_count:
  fixes n :: "32 word"
  assumes "0 \<le> sint n"
  shows "unat (scast n :: 64 word) = nat (sint n)"
proof -
  have "uint (scast n :: 64 word) = sint n mod 2 ^ LENGTH(64)"
    unfolding scast_eq by (rule uint_word_of_int)
  also have "\<dots> = sint n mod 2 ^ 64"
    by simp
  also have "\<dots> = sint n"
    using assms sint_count_bound [of n] by simp
  finally have "nat (uint (scast n :: 64 word)) = nat (sint n)"
    by (simp only:)
  then show ?thesis
    by (simp only: unat_eq_nat_uint)
qed

lemma next_frame:
  fixes frame :: "64 word" and n :: "32 word"
  assumes "0 < sint n" and "frame \<noteq> - 1"
  shows "unat ((frame + 1) mod scast n) = (unat frame + 1) mod nat (sint n)"
proof -
  have "1 + frame \<noteq> 0"
    using assms(2) by (simp add: add_eq_0_iff)
  then have "unat (frame + 1) = unat frame + 1"
    using unatSuc [of frame] by (simp add: add.commute)
  then show ?thesis
    using assms(1) by (simp add: unat_mod unat_scast_count)
qed

lemma wait_index:
  fixes img n :: "32 word"
  assumes "img \<noteq> 0" and "0 < sint n"
  shows "unat ((img - 1) mod n) = (unat img - 1) mod nat (sint n)"
  using assms by (simp add: unat_mod unat_minus_one unat_of_count)

lemma frame_not_max:
  fixes frame :: "64 word"
  assumes "unat frame < 2 ^ 31"
  shows "frame \<noteq> - 1"
proof
  assume "frame = - 1"
  then have "unat frame = unat (- 1 :: 64 word)"
    by simp
  also have "\<dots> = 2 ^ 64 - 1"
    by (simp add: unsigned_minus_1_eq_mask mask_eq_exp_minus_1)
  finally show False
    using assms by simp
qed


section \<open>The fence a tick waits for\<close>

lemma fences_waited_prefix:
  assumes "prefix cs (tick_calls s img)"
  shows "set (fences_waited cs) \<subseteq> {unat ((img - 1) mod m_currentFramesInFlightCount s)}"
    and "fences_waited cs \<noteq> [] \<longrightarrow>
         before_first_wait cs =
           AcquireNextImage (unat img) #
           (if m_running (m_commandBuffers s ! unat (m_currentFrame s)) then []
            else [Begin (unat (m_currentFrame s))]) @
           [Render (unat (m_currentFrame s))]"
  using assms
  by (auto simp add: tick_calls_def prefix_Cons fences_waited_def before_first_wait_def
        List.map_filter_def split: if_splits)

lemma fences_waited_tick_calls:
  "fences_waited (tick_calls s img) = [unat ((img - 1) mod m_currentFramesInFlightCount s)]"
  by (simp add: tick_calls_def fences_waited_def List.map_filter_def)

text \<open>
  C1, as the code has it. The claim reads: every tick waits for the fence of the current
  frame slot, and does so before the command buffer of that slot is begun. The code waits
  once per tick, after it has begun the command buffer of the slot (when that was not
  recording already) and after the render callback has recorded into it, and before it
  ends and submits the command buffer. The fence it waits for is taken from the acquired
  image, not from the frame slot: the in-flight fence at position
  \<open>(image - 1) mod frames in flight\<close>, that of the image before the acquired one when the
  acquired image is not image 0.
\<close>

theorem tick_fence_wait:
  assumes "tick render img presented s = (r, s')"
  shows "set (fences_waited (calls_since s s')) \<subseteq>
           {unat ((img - 1) mod m_currentFramesInFlightCount s)} \<and>
         (fences_waited (calls_since s s') \<noteq> [] \<longrightarrow>
            before_first_wait (calls_since s s') =
              AcquireNextImage (unat img) #
              (if m_running (m_commandBuffers s ! unat (m_currentFrame s)) then []
               else [Begin (unat (m_currentFrame s))]) @
              [Render (unat (m_currentFrame s))]) \<and>
         (r = None \<longrightarrow>
            fences_waited (calls_since s s') = [unat ((img - 1) mod m_currentFramesInFlightCount s)]) \<and>
         (img \<noteq> 0 \<and> 0 < sint (m_currentFramesInFlightCount s) \<longrightarrow>
            unat ((img - 1) mod m_currentFramesInFlightCount s) =
              (unat img - 1) mod nat (sint (m_currentFramesInFlightCount s)))"
proof -
  from tick_calls_prefix [OF assms] obtain cs
    where cs: "device_calls s' = device_calls s @ cs" and pre: "prefix cs (tick_calls s img)"
    by blast
  from cs have since: "calls_since s s' = cs"
    by (rule calls_since_append)
  have completed: "fences_waited (calls_since s s') = [unat ((img - 1) mod m_currentFramesInFlightCount s)]"
    if "r = None"
  proof -
    from assms that have "device_calls s' = device_calls s @ tick_calls s img"
      by (simp add: tick_completed(1))
    then have "calls_since s s' = tick_calls s img"
      by (rule calls_since_append)
    then show ?thesis
      by (simp add: fences_waited_tick_calls)
  qed
  from fences_waited_prefix [OF pre] completed show ?thesis
    unfolding since by (simp add: wait_index)
qed

theorem tick_fence_wait_witness:
  "tick example_render 2 True example_engine = (None, snd (tick example_render 2 True example_engine)) \<and>
   unat (m_currentFrame example_engine) = 0 \<and>
   fences_waited (calls_since example_engine (snd (tick example_render 2 True example_engine))) = [1] \<and>
   before_first_wait (calls_since example_engine (snd (tick example_render 2 True example_engine)))
     = [AcquireNextImage 2, Begin 0, Render 0] \<and>
   (2 :: 32 word) \<noteq> 0 \<and> 0 < sint (m_currentFramesInFlightCount example_engine) \<and>
   unat (((2 :: 32 word) - 1) mod m_currentFramesInFlightCount example_engine) =
     (unat (2 :: 32 word) - 1) mod nat (sint (m_currentFramesInFlightCount example_engine))"
proof -
  have run: "tick example_render 2 True example_engine = (None, snd (tick example_render 2 True example_engine))"
    using example_tick_completes by (simp add: prod_eq_iff)
  have facts: "(2 :: 32 word) \<noteq> 0" "0 < sint (m_currentFramesInFlightCount example_engine)"
    "unat (((2 :: 32 word) - 1) mod m_currentFramesInFlightCount example_engine) = 1"
    "unat (m_currentFrame example_engine) = 0"
    "\<not> m_running (m_commandBuffers example_engine ! 0)"
    by (simp_all add: example_engine_def)
  from tick_fence_wait [OF run] facts run show ?thesis
    by simp
qed

text \<open>
  The first frame of the example engine with image 2 acquired: the fence waited for is
  fence 1, not the fence of slot 0. With image 1 acquired it is fence 0, and the command
  buffer of slot 0 is begun and recorded into before the wait.
\<close>

theorem tick_fence_wait_counterexample:
  "fst (tick example_render 2 True example_engine) = None \<and>
   unat (m_currentFrame example_engine) = 0 \<and>
   calls_since example_engine (snd (tick example_render 2 True example_engine)) =
     [AcquireNextImage 2, Begin 0, Render 0, WaitForFences 1, EndRecording 0, Submit 0 2 2 2,
      PresentToQueue 2] \<and>
   \<not> waits_before_reuse 0 (calls_since example_engine (snd (tick example_render 2 True example_engine))) \<and>
   fst (tick example_render 1 True example_engine) = None \<and>
   calls_since example_engine (snd (tick example_render 1 True example_engine)) =
     [AcquireNextImage 1, Begin 0, Render 0, WaitForFences 0, EndRecording 0, Submit 0 1 1 1,
      PresentToQueue 1] \<and>
   \<not> waits_before_reuse 0 (calls_since example_engine (snd (tick example_render 1 True example_engine)))"
  by code_simp


section \<open>What a tick submits\<close>

lemma submits_prefix:
  assumes "prefix cs (tick_calls s img)"
  shows "set (submits cs) \<subseteq> {Submit (unat (m_currentFrame s)) (unat img) (unat img) (unat img)}"
  using assms
  by (auto simp add: tick_calls_def prefix_Cons submits_def split: if_splits)

lemma submits_tick_calls:
  "submits (tick_calls s img) = [Submit (unat (m_currentFrame s)) (unat img) (unat img) (unat img)]"
  by (simp add: tick_calls_def submits_def)

text \<open>
  C2, as the code has it. The claim reads: the fence given to \<^verbatim>\<open>submit\<close> is that of the
  current frame slot, and the two semaphores are those of the acquired image. In the code
  all three are taken at the active image index, the index the presentation surface
  returned in this tick: the fence to signal, the image-available semaphore to wait for
  and the render-finished semaphore to signal. The command buffer submitted is that of
  the frame slot, and a tick that runs to its end submits once.
\<close>

theorem tick_submit:
  assumes "tick render img presented s = (r, s')"
  shows "(\<forall>slot fence wait signal. Submit slot fence wait signal \<in> set (calls_since s s') \<longrightarrow>
            slot = unat (m_currentFrame s) \<and> fence = unat img \<and> wait = unat img \<and> signal = unat img) \<and>
         (r = None \<longrightarrow>
            submits (calls_since s s') =
              [Submit (unat (m_currentFrame s)) (unat img) (unat img) (unat img)] \<and>
            m_activeImageIndex s' = img)"
proof (intro conjI allI impI)
  from tick_calls_prefix [OF assms] obtain cs
    where cs: "device_calls s' = device_calls s @ cs" and pre: "prefix cs (tick_calls s img)"
    by blast
  from cs have since: "calls_since s s' = cs"
    by (rule calls_since_append)
  fix slot fence wait signal
  assume "Submit slot fence wait signal \<in> set (calls_since s s')"
  then have "Submit slot fence wait signal \<in> set (submits cs)"
    by (simp add: since submits_def)
  with submits_prefix [OF pre]
  have "Submit slot fence wait signal = Submit (unat (m_currentFrame s)) (unat img) (unat img) (unat img)"
    by blast
  then show "slot = unat (m_currentFrame s)" "fence = unat img" "wait = unat img" "signal = unat img"
    by simp_all
next
  assume "r = None"
  with assms have "device_calls s' = device_calls s @ tick_calls s img"
    by (simp add: tick_completed(1))
  then have "calls_since s s' = tick_calls s img"
    by (rule calls_since_append)
  then show "submits (calls_since s s') =
              [Submit (unat (m_currentFrame s)) (unat img) (unat img) (unat img)]"
    by (simp add: submits_tick_calls)
next
  assume "r = None"
  with assms show "m_activeImageIndex s' = img"
    by (auto simp add: tick_def Let_def aquireNextImage_def begin_recording_def end_recording_def
        call_def split: if_splits sum.splits)
qed

theorem tick_submit_witness:
  "tick example_render 2 True example_engine = (None, snd (tick example_render 2 True example_engine)) \<and>
   unat (m_currentFrame example_engine) = 0 \<and>
   Submit 0 2 2 2 \<in> set (calls_since example_engine (snd (tick example_render 2 True example_engine))) \<and>
   submits (calls_since example_engine (snd (tick example_render 2 True example_engine))) = [Submit 0 2 2 2]"
proof -
  have run: "tick example_render 2 True example_engine = (None, snd (tick example_render 2 True example_engine))"
    using example_tick_completes by (simp add: prod_eq_iff)
  have facts: "unat (m_currentFrame example_engine) = 0" "unat (2 :: 32 word) = 2"
    by (simp_all add: example_engine_def)
  from tick_submit [OF run] have
    "submits (calls_since example_engine (snd (tick example_render 2 True example_engine))) = [Submit 0 2 2 2]"
    unfolding facts by blast
  moreover from this
  have "Submit 0 2 2 2 \<in> set (submits (calls_since example_engine (snd (tick example_render 2 True example_engine))))"
    by simp
  then have "Submit 0 2 2 2 \<in> set (calls_since example_engine (snd (tick example_render 2 True example_engine)))"
    by (simp add: submits_def)
  ultimately show ?thesis
    using run facts by blast
qed

text \<open>
  The first frame of the example engine with image 2 acquired: the fence given to
  \<^verbatim>\<open>submit\<close> is fence 2, while the frame slot is 0.
\<close>

theorem tick_submit_counterexample:
  "fst (tick example_render 2 True example_engine) = None \<and>
   unat (m_currentFrame example_engine) = 0 \<and>
   submits (calls_since example_engine (snd (tick example_render 2 True example_engine))) =
     [Submit 0 2 2 2] \<and>
   \<not> submits_with_slot_fence 0 2
        (calls_since example_engine (snd (tick example_render 2 True example_engine)))"
  by code_simp


section \<open>The frame index\<close>

lemma ticks_calls:
  "ticks render turns s = (r, s') \<Longrightarrow> \<exists>cs. device_calls s' = device_calls s @ cs"
proof (induction turns arbitrary: s)
  case Nil
  then show ?case by simp
next
  case (Cons turn turns)
  obtain img presented where turn: "turn = (img, presented)"
    by (cases turn)
  obtain r1 s1 where step: "tick render img presented s = (r1, s1)"
    by (cases "tick render img presented s")
  from tick_calls_prefix [OF step] obtain cs1 where cs1: "device_calls s1 = device_calls s @ cs1"
    by blast
  show ?case
  proof (cases r1)
    case None
    with Cons.prems turn step have "ticks render turns s1 = (r, s')"
      by simp
    from Cons.IH [OF this] cs1 show ?thesis
      by auto
  next
    case (Some f)
    with Cons.prems turn step have "s' = s1"
      by simp
    with cs1 show ?thesis by simp
  qed
qed

lemma frame_slots_tick_calls: "frame_slots (tick_calls s img) = [unat (m_currentFrame s)]"
  by (simp add: tick_calls_def frame_slots_def List.map_filter_def)

lemma frame_slots_append: "frame_slots (xs @ ys) = frame_slots xs @ frame_slots ys"
  by (simp add: frame_slots_def map_filter_append)

lemma ticks_frame_slots:
  assumes "ticks render turns s = (None, s')"
    and "0 < sint (m_currentFramesInFlightCount s)"
    and "unat (m_currentFrame s) < nat (sint (m_currentFramesInFlightCount s))"
  shows "frame_slots (calls_since s s') =
     map (\<lambda>k. (unat (m_currentFrame s) + k) mod nat (sint (m_currentFramesInFlightCount s)))
       [0..<length turns]"
  using assms
proof (induction turns arbitrary: s)
  case Nil
  then show ?case by (simp add: calls_since_def frame_slots_def List.map_filter_def)
next
  case (Cons turn turns)
  let ?n = "nat (sint (m_currentFramesInFlightCount s))"
  obtain img presented where turn: "turn = (img, presented)"
    by (cases turn)
  obtain r1 s1 where step: "tick render img presented s = (r1, s1)"
    by (cases "tick render img presented s")
  have r1: "r1 = None"
    using Cons.prems(1) turn step by (cases r1) simp_all
  with Cons.prems(1) turn step have rest: "ticks render turns s1 = (None, s')"
    by simp
  note done1 = tick_completed [OF step [unfolded r1]]
  have "sint (m_currentFramesInFlightCount s) < 2 ^ 31"
    by (rule sint_count_bound)
  with Cons.prems(3) have "unat (m_currentFrame s) < 2 ^ 31"
    by simp
  then have "m_currentFrame s \<noteq> - 1"
    by (rule frame_not_max)
  with Cons.prems(2) have frame1: "unat (m_currentFrame s1) = (unat (m_currentFrame s) + 1) mod ?n"
    unfolding done1(2) by (rule next_frame)
  have count1: "m_currentFramesInFlightCount s1 = m_currentFramesInFlightCount s"
    by (fact done1(3))
  have "frame_slots (calls_since s1 s') =
     map (\<lambda>k. (unat (m_currentFrame s1) + k) mod nat (sint (m_currentFramesInFlightCount s1)))
       [0..<length turns]"
    using rest Cons.prems(2) frame1 by (intro Cons.IH) (simp_all add: count1)
  then have tail: "frame_slots (calls_since s1 s') =
     map (\<lambda>k. (unat (m_currentFrame s) + Suc k) mod ?n) [0..<length turns]"
    by (simp add: frame1 count1 mod_add_left_eq)
  from ticks_calls [OF rest] obtain cs where cs: "device_calls s' = device_calls s1 @ cs"
    by blast
  then have "calls_since s s' = tick_calls s img @ calls_since s1 s'"
    by (simp add: calls_since_def done1(1))
  then have "frame_slots (calls_since s s') = unat (m_currentFrame s) # frame_slots (calls_since s1 s')"
    by (simp add: frame_slots_append frame_slots_tick_calls)
  also have "\<dots> = map (\<lambda>k. (unat (m_currentFrame s) + k) mod ?n) [0..<length (turn # turns)]"
    using Cons.prems(3) by (simp add: tail map_upt_Suc del: upt_Suc)
  finally show ?case .
qed

text \<open>
  C4. A tick that runs to its end leaves the frame index at the old one plus one, modulo
  the number of frames in flight, and renders into the slot of the old index and no
  other (the \<^verbatim>\<open>std::size_t\<close> index is never at its maximum, the ring being shorter than
  \<open>2 ^ 31\<close>). With three frames in flight and starting from frame 0, any number of ticks
  that run to their end render into the slots \<open>0, 1, 2, 0, 1, 2, \<dots>\<close> in this order.
\<close>

theorem tick_advances_frame:
  "(tick render img presented s = (None, s') \<and> 0 < sint (m_currentFramesInFlightCount s) \<and>
      m_currentFrame s \<noteq> - 1 \<longrightarrow>
      unat (m_currentFrame s') =
        (unat (m_currentFrame s) + 1) mod nat (sint (m_currentFramesInFlightCount s)) \<and>
      m_currentFramesInFlightCount s' = m_currentFramesInFlightCount s \<and>
      frame_slots (calls_since s s') = [unat (m_currentFrame s)]) \<and>
   (ticks render turns s = (None, s'') \<and> sint (m_currentFramesInFlightCount s) = 3 \<and>
      m_currentFrame s = 0 \<longrightarrow>
      frame_slots (calls_since s s'') = map (\<lambda>k. k mod 3) [0..<length turns])"
proof (intro conjI impI)
  assume a: "tick render img presented s = (None, s') \<and> 0 < sint (m_currentFramesInFlightCount s) \<and>
      m_currentFrame s \<noteq> - 1"
  then have step: "tick render img presented s = (None, s')"
    by simp
  note done1 = tick_completed [OF step]
  from a show "unat (m_currentFrame s') =
        (unat (m_currentFrame s) + 1) mod nat (sint (m_currentFramesInFlightCount s))"
    unfolding done1(2) by (intro next_frame) simp_all
  show "m_currentFramesInFlightCount s' = m_currentFramesInFlightCount s"
    by (fact done1(3))
  from done1(1) have "calls_since s s' = tick_calls s img"
    by (rule calls_since_append)
  then show "frame_slots (calls_since s s') = [unat (m_currentFrame s)]"
    by (simp add: frame_slots_tick_calls)
next
  assume a: "ticks render turns s = (None, s'') \<and> sint (m_currentFramesInFlightCount s) = 3 \<and>
      m_currentFrame s = 0"
  then have "frame_slots (calls_since s s'') =
     map (\<lambda>k. (unat (m_currentFrame s) + k) mod nat (sint (m_currentFramesInFlightCount s)))
       [0..<length turns]"
    using ticks_frame_slots [of render turns s s''] by simp
  with a show "frame_slots (calls_since s s'') = map (\<lambda>k. k mod 3) [0..<length turns]"
    by simp
qed

theorem tick_advances_frame_witness:
  "tick example_render 2 True example_engine = (None, snd (tick example_render 2 True example_engine)) \<and>
   sint (m_currentFramesInFlightCount example_engine) = 3 \<and> m_currentFrame example_engine = 0 \<and>
   m_currentFrame example_engine \<noteq> - 1 \<and>
   unat (m_currentFrame (snd (tick example_render 2 True example_engine))) = 1 \<and>
   frame_slots (calls_since example_engine (snd (tick example_render 2 True example_engine))) = [0] \<and>
   ticks example_render example_turns example_engine =
     (None, snd (ticks example_render example_turns example_engine)) \<and>
   frame_slots (calls_since example_engine (snd (ticks example_render example_turns example_engine)))
     = [0, 1, 2, 0, 1]"
proof -
  have run: "tick example_render 2 True example_engine = (None, snd (tick example_render 2 True example_engine))"
    using example_tick_completes by (simp add: prod_eq_iff)
  have runs: "ticks example_render example_turns example_engine =
     (None, snd (ticks example_render example_turns example_engine))"
    using example_ticks_complete by (simp add: prod_eq_iff)
  have facts: "sint (m_currentFramesInFlightCount example_engine) = 3" "m_currentFrame example_engine = 0"
    by (simp_all add: example_engine_def)
  have upt: "map (\<lambda>k. k mod 3) [0..<length example_turns] = [0, 1, 2, 0, 1 :: nat]"
    by code_simp
  from tick_advances_frame [of example_render 2 True example_engine
      "snd (tick example_render 2 True example_engine)" example_turns
      "snd (ticks example_render example_turns example_engine)"]
  show ?thesis
    using run runs facts upt by simp
qed


end
